theory Spec2Isabelle
  imports
    Complex_Main
    "HOL-Library.Word"
    "HOL-Library.AList"
    "HOL-Library.Multiset"
    "HOL-Library.Char_ord"
    "HOL-Library.List_Lexorder"
    "HOL-Library.Product_Lexorder"
begin

unbundle bit_operations_syntax

section \<open>Strings and time\<close>

text \<open>
  Go strings are byte sequences and are compared bytewise, which is the lexicographic
  order of \<^typ>\<open>string\<close> over the byte order of \<^typ>\<open>char\<close>. The library functions
  \<^verbatim>\<open>strings.TrimSpace\<close>, \<^verbatim>\<open>strings.ToLower\<close> and \<^verbatim>\<open>strings.Split\<close> are modelled on
  ASCII text: white space is tab, line feed, vertical tab, form feed, carriage return
  and space, and only the letters A to Z have a lower-case form.

  A \<^verbatim>\<open>time.Time\<close> is the instant it denotes, counted in nanoseconds from Go's zero time,
  so that \<^verbatim>\<open>IsZero\<close> is equality with 0 and \<^verbatim>\<open>After\<close>, \<^verbatim>\<open>Before\<close> and \<^verbatim>\<open>Equal\<close> are
  the order of the integers. A \<^verbatim>\<open>time.Duration\<close> is a number of nanoseconds.
\<close>

type_synonym time = int

definition hour :: int where
  "hour = 3600000000000"

definition isSpace :: "char \<Rightarrow> bool" where
  "isSpace c = (c = CHR 0x09 \<or> c = CHR 0x0A \<or> c = CHR 0x0B \<or> c = CHR 0x0C
                \<or> c = CHR 0x0D \<or> c = CHR '' '')"

definition TrimSpace :: "string \<Rightarrow> string" where
  "TrimSpace s = rev (dropWhile isSpace (rev (dropWhile isSpace s)))"

text \<open>The string without the white space at its end.\<close>

definition trimRight :: "string \<Rightarrow> string" where
  "trimRight s = rev (dropWhile isSpace (rev s))"

definition lowerChar :: "char \<Rightarrow> char" where
  "lowerChar c =
     (if CHR ''A'' \<le> c \<and> c \<le> CHR ''Z'' then char_of (of_char c + (32::nat)) else c)"

definition ToLower :: "string \<Rightarrow> string" where
  "ToLower s = map lowerChar s"

text \<open>\<^verbatim>\<open>strings.Split(s, ":")\<close>: the pieces between the separators; never the empty list.\<close>

fun Split :: "string \<Rightarrow> char \<Rightarrow> string list" where
  "Split [] sep = [[]]"
| "Split (c # cs) sep =
     (if c = sep then [] # Split cs sep
      else (case Split cs sep of
              [] \<Rightarrow> [[c]]
            | p # ps \<Rightarrow> (c # p) # ps))"

text \<open>\<^verbatim>\<open>strings.Index(s, ":")\<close>: the position of the first separator, or \<open>-1\<close>.\<close>

fun Index :: "string \<Rightarrow> char \<Rightarrow> int" where
  "Index [] sep = -1"
| "Index (c # cs) sep =
     (if c = sep then 0
      else (let i = Index cs sep in if i < 0 then -1 else i + 1))"

section \<open>Quote normalisation and aggregation\<close>

record Quote =
  Symbol :: string
  Price :: string
  Currency :: string
  Source :: string
  ReceivedAt :: time

text \<open>
  \<^verbatim>\<open>MarketKey\<close> and \<^verbatim>\<open>Latest\<close> reuse the field names of \<^verbatim>\<open>Quote\<close> in the source; here
  their fields carry the prefixes \<open>k\<close> and \<open>l\<close>.
\<close>

record MarketKey =
  kSymbol :: string
  kMarket :: string
  kSide :: string
  kCurrency :: string

record Latest =
  lSymbol :: string
  lMarket :: string
  lSide :: string
  lCurrency :: string
  lPrice :: string
  lProvider :: string
  lReceivedAt :: time

definition aliasMap :: "(string \<times> string) list" where
  "aliasMap =
     [(''buff'', ''BUFF''),
      (''buff.163'', ''BUFF''),
      (''buff163'', ''BUFF''),
      (''steam'', ''Steam''),
      (''c5'', ''C5GAME''),
      (''c5game'', ''C5GAME''),
      (''csmoney'', ''CS.MONEY''),
      (''cs.money'', ''CS.MONEY''),
      (''skinport'', ''Skinport'')]"

text \<open>
  The raw market and side fields of a source tag: the \<^verbatim>\<open>switch\<close> on the lower-cased,
  trimmed first part. An absent part leaves the field empty.
\<close>

definition rawFields :: "string list \<Rightarrow> string \<times> string" where
  "rawFields parts =
     (let lpref = ToLower (TrimSpace (parts ! 0)) in
      if lpref = ''steamdt'' then
        ((if length parts \<ge> 2 then parts ! 1 else []),
         (if length parts \<ge> 3 then parts ! 2 else []))
      else if lpref = ''pricempire'' \<or> lpref = ''skinstablexyz'' then
        ((if length parts \<ge> 2 then parts ! 1 else []), [])
      else
        ((if length parts \<ge> 2 then parts ! 1 else []),
         (if length parts \<ge> 3 then parts ! 2 else [])))"

definition NormalizeSource :: "string \<Rightarrow> string \<times> string" where
  "NormalizeSource src =
     (let s = TrimSpace src in
      if s = [] then ([], [])
      else
        (let parts = Split s CHR '':'' in
         if length parts = 0 then ([], [])
         else
           (let (mraw, sraw) = rawFields parts;
                m = TrimSpace mraw;
                market = (case map_of aliasMap (ToLower m) of
                            Some nrm \<Rightarrow> nrm
                          | None \<Rightarrow> m);
                side = ToLower (TrimSpace sraw)
            in (market, side))))"

text \<open>The provider name: the text before the first colon, when that colon is not at position 0.\<close>

definition providerName :: "string \<Rightarrow> string" where
  "providerName src =
     (let idx = Index src CHR '':'' in
      if idx > 0 then take (nat idx) src else src)"

definition effectiveTime :: "time \<Rightarrow> Quote \<Rightarrow> time" where
  "effectiveTime now q = (if ReceivedAt q = 0 then now else ReceivedAt q)"

definition sideOf :: "bool \<Rightarrow> Quote \<Rightarrow> string" where
  "sideOf includeSides q = (if \<not> includeSides then [] else snd (NormalizeSource (Source q)))"

definition keyOf :: "bool \<Rightarrow> Quote \<Rightarrow> MarketKey" where
  "keyOf includeSides q =
     \<lparr>kSymbol = Symbol q,
      kMarket = fst (NormalizeSource (Source q)),
      kSide = sideOf includeSides q,
      kCurrency = Currency q\<rparr>"

definition rowOf :: "time \<Rightarrow> bool \<Rightarrow> Quote \<Rightarrow> Latest" where
  "rowOf now includeSides q =
     \<lparr>lSymbol = Symbol q,
      lMarket = fst (NormalizeSource (Source q)),
      lSide = sideOf includeSides q,
      lCurrency = Currency q,
      lPrice = Price q,
      lProvider = providerName (Source q),
      lReceivedAt = effectiveTime now q\<rparr>"

text \<open>
  One iteration of the loop over the quotes. The Go map \<^verbatim>\<open>latest\<close> is an association list
  with distinct keys: an assignment replaces the value of a present key in place and
  appends an absent one.
\<close>

definition latestStep ::
  "time \<Rightarrow> bool \<Rightarrow> (MarketKey \<times> Latest) list \<Rightarrow> Quote \<Rightarrow> (MarketKey \<times> Latest) list" where
  "latestStep now includeSides latest q =
     (let ts = effectiveTime now q;
          key = keyOf includeSides q
      in case map_of latest key of
           Some cur \<Rightarrow>
             if ts > lReceivedAt cur \<or> ts = lReceivedAt cur
             then AList.update key (rowOf now includeSides q) latest
             else latest
         | None \<Rightarrow> AList.update key (rowOf now includeSides q) latest)"

definition latestTable :: "time \<Rightarrow> bool \<Rightarrow> Quote list \<Rightarrow> (MarketKey \<times> Latest) list" where
  "latestTable now includeSides quotes = foldl (latestStep now includeSides) [] quotes"

text \<open>The comparison handed to \<^verbatim>\<open>sort.Slice\<close>: symbol, then market, then side.\<close>

definition lessRow :: "Latest \<Rightarrow> Latest \<Rightarrow> bool" where
  "lessRow a b =
     (if lSymbol a \<noteq> lSymbol b then lSymbol a < lSymbol b
      else if lMarket a \<noteq> lMarket b then lMarket a < lMarket b
      else if lSide a \<noteq> lSide b then lSide a < lSide b
      else False)"

text \<open>
  \<^verbatim>\<open>sort.Slice\<close> sorts by the comparison and promises nothing about rows that compare
  equal. It is modelled as an insertion sort, which keeps such rows in the order in which
  it receives them; that order is the iteration order of the Go map, which the language
  leaves open, so the model takes it as the parameter \<open>ord\<close>: any function that permutes
  the list of values. Every order \<^verbatim>\<open>sort.Slice\<close> can leave equal rows in is reached by
  some \<open>ord\<close>.
\<close>

fun insertBy :: "('a \<Rightarrow> 'a \<Rightarrow> bool) \<Rightarrow> 'a \<Rightarrow> 'a list \<Rightarrow> 'a list" where
  "insertBy lt x [] = [x]"
| "insertBy lt x (y # ys) =
     (if lt x y then x # y # ys else y # insertBy lt x ys)"

definition sortSlice :: "('a \<Rightarrow> 'a \<Rightarrow> bool) \<Rightarrow> 'a list \<Rightarrow> 'a list" where
  "sortSlice lt xs = foldl (\<lambda>acc x. insertBy lt x acc) [] xs"

definition isPermuting :: "('a list \<Rightarrow> 'a list) \<Rightarrow> bool" where
  "isPermuting ord = (\<forall>xs. mset (ord xs) = mset xs)"

definition LatestByMarket ::
  "time \<Rightarrow> (Latest list \<Rightarrow> Latest list) \<Rightarrow> Quote list \<Rightarrow> bool \<Rightarrow> Latest list" where
  "LatestByMarket now ord quotes includeSides =
     sortSlice lessRow (ord (map snd (latestTable now includeSides quotes)))"



definition rowKey :: "Latest \<Rightarrow> MarketKey" where
  "rowKey r = \<lparr>kSymbol = lSymbol r, kMarket = lMarket r, kSide = lSide r, kCurrency = lCurrency r\<rparr>"



section \<open>Blocking, the clock and cancellation\<close>

text \<open>
  The code blocks in two ways: \<^verbatim>\<open>time.Sleep(d)\<close>, which takes only a duration, and a
  \<^verbatim>\<open>select\<close> over \<^verbatim>\<open>ctx.Done()\<close> and a timer channel. Both are modelled on a virtual
  clock that only blocking advances. A context is the instant at which its \<^verbatim>\<open>Done\<close>
  channel is closed (by cancellation or by its deadline), or \<open>None\<close> when that never
  happens; \<^verbatim>\<open>ctx.Err()\<close> is then the single value \<open>CtxErr\<close>.

  \<open>selectTimer ctx d t\<close> is the \<^verbatim>\<open>select\<close> entered at time \<open>t\<close> with a timer of the
  positive duration \<open>d\<close>: the context wins when it is done before the timer fires, and the
  clock then stands at the later of \<open>t\<close> and the cancellation. When both become ready at
  the same instant Go chooses either; the model lets the timer win.
\<close>

datatype error = CtxErr | HttpStatusErr int string | OtherErr string

datatype 'e fault = Failed 'e | Panicked

type_synonym "context" = "time option"

datatype wake = TimerFired | CtxDone

definition ctxDone :: "context \<Rightarrow> time \<Rightarrow> bool" where
  "ctxDone ctx t = (case ctx of None \<Rightarrow> False | Some c \<Rightarrow> c \<le> t)"

definition selectTimer :: "context \<Rightarrow> int \<Rightarrow> time \<Rightarrow> wake \<times> time" where
  "selectTimer ctx d t =
     (case ctx of
        None \<Rightarrow> (TimerFired, t + d)
      | Some c \<Rightarrow> if c < t + d then (CtxDone, max c t) else (TimerFired, t + d))"

text \<open>\<^verbatim>\<open>time.Sleep\<close> returns at once for a duration that is not positive.\<close>

definition timeSleep :: "int \<Rightarrow> time \<Rightarrow> time" where
  "timeSleep d t = (if d \<le> 0 then t else t + d)"

section \<open>Rate limiters\<close>

text \<open>
  The \<^verbatim>\<open>float64\<close> fields of the token bucket are real numbers here: rounding and the
  values NaN and infinity are outside the model. The conversion of a \<^verbatim>\<open>float64\<close> to a
  \<^verbatim>\<open>time.Duration\<close> truncates towards zero; a value outside the 64-bit range, for which
  Go leaves the result to the platform, is taken as not positive, which makes the code
  fall back to one millisecond.
\<close>

text \<open>The field \<^verbatim>\<open>last\<close> of the bucket is \<open>last_tb\<close> here.\<close>

record TokenBucket =
  rate :: real
  capacity :: real
  tokens :: real
  last_tb :: time

definition NewTokenBucket :: "real \<Rightarrow> int \<Rightarrow> time \<Rightarrow> TokenBucket" where
  "NewTokenBucket tokensPerSecond burst now =
     (let tps = (if tokensPerSecond \<le> 0 then 1 / 10000000 else tokensPerSecond);
          b = (if burst \<le> 0 then 1 else burst)
      in \<lparr>rate = tps, capacity = of_int b, tokens = of_int b, last_tb = now\<rparr>)"

text \<open>\<^verbatim>\<open>now.Sub(tb.last).Seconds()\<close>\<close>

definition secondsBetween :: "time \<Rightarrow> time \<Rightarrow> real" where
  "secondsBetween now earlier = of_int (now - earlier) / 1000000000"

definition refill :: "TokenBucket \<Rightarrow> time \<Rightarrow> TokenBucket" where
  "refill tb now =
     (let elapsed = secondsBetween now (last_tb tb) in
      if elapsed > 0 then
        (let t1 = tokens tb + elapsed * rate tb;
             t2 = (if t1 > capacity tb then capacity tb else t1)
         in tb\<lparr>tokens := t2, last_tb := now\<rparr>)
      else tb)"

definition toDuration :: "real \<Rightarrow> int" where
  "toDuration x =
     (let n = (if x \<ge> 0 then \<lfloor>x\<rfloor> else \<lceil>x\<rceil>) in
      if - (2 ^ 63) \<le> n \<and> n < 2 ^ 63 then n else - (2 ^ 63))"

definition millisecond :: int where
  "millisecond = 1000000"

definition waitDur :: "TokenBucket \<Rightarrow> int" where
  "waitDur tb =
     (let deficit = 1 - tokens tb;
          d = toDuration (deficit / rate tb * 1000000000)
      in if d \<le> 0 then millisecond else d)"

text \<open>
  One pass through the critical section of \<^verbatim>\<open>wait\<close>, entered at the clock reading
  \<open>now\<close>: the refill, then either the acquisition of a token or the time to wait for.
\<close>

datatype step = Acquired | MustWait int

definition waitStep :: "TokenBucket \<Rightarrow> time \<Rightarrow> TokenBucket \<times> step" where
  "waitStep tb now =
     (let tb1 = refill tb now in
      if tokens tb1 \<ge> 1 then (tb1\<lparr>tokens := tokens tb1 - 1\<rparr>, Acquired)
      else (tb1, MustWait (waitDur tb1)))"

text \<open>
  The loop of \<^verbatim>\<open>wait\<close>, started at time \<open>t\<close>. The first argument bounds the number of
  passes; the first component of the result is \<open>None\<close> when the bound is reached with
  the caller still blocked, \<open>Some None\<close> for the return of \<^verbatim>\<open>nil\<close> and
  \<open>Some (Some e)\<close> for the return of the error \<open>e\<close>.
\<close>

fun wait :: "nat \<Rightarrow> context \<Rightarrow> TokenBucket \<Rightarrow> time \<Rightarrow> error option option \<times> TokenBucket \<times> time" where
  "wait 0 ctx tb t = (None, tb, t)"
| "wait (Suc n) ctx tb t =
     (case waitStep tb t of
        (tb1, Acquired) \<Rightarrow> (Some None, tb1, t)
      | (tb1, MustWait d) \<Rightarrow>
          (case selectTimer ctx d t of
             (CtxDone, t') \<Rightarrow> (Some (Some CtxErr), tb1, t')
           | (TimerFired, t') \<Rightarrow> wait n ctx tb1 t'))"

text \<open>
  Successive calls of \<^verbatim>\<open>wait\<close>, one per clock reading of the list, each with the pass
  bound \<open>n\<close>: the results of the calls and the bucket they leave.
\<close>

fun waitMany :: "nat \<Rightarrow> context \<Rightarrow> TokenBucket \<Rightarrow> time list \<Rightarrow>
    (error option option \<times> time) list \<times> TokenBucket" where
  "waitMany n ctx tb [] = ([], tb)"
| "waitMany n ctx tb (t # ts) =
     (case wait n ctx tb t of
        (r, tb1, t') \<Rightarrow>
          (case waitMany n ctx tb1 ts of (rs, tb2) \<Rightarrow> ((r, t') # rs, tb2)))"

text \<open>
  A wrapped provider is a function of the context, the symbols and the time of the call
  that gives the result of \<^verbatim>\<open>Fetch\<close> and the time at which it returns.
\<close>

type_synonym 'e provider = "context \<Rightarrow> string list \<Rightarrow> time \<Rightarrow> ('e + Quote list) \<times> time"

text \<open>\<^verbatim>\<open>TokenBucketProvider.Fetch\<close>; \<open>None\<close> is the nil bucket.\<close>

definition TokenBucketProvider_Fetch ::
  "nat \<Rightarrow> error provider \<Rightarrow> TokenBucket option \<Rightarrow> context \<Rightarrow> string list \<Rightarrow> time \<Rightarrow>
     ((error + Quote list) \<times> time) option \<times> TokenBucket option" where
  "TokenBucketProvider_Fetch n P TB ctx symbols t =
     (case TB of
        None \<Rightarrow> (Some (P ctx symbols t), None)
      | Some tb \<Rightarrow>
          (case wait n ctx tb t of
             (None, tb1, t') \<Rightarrow> (None, Some tb1)
           | (Some (Some err), tb1, t') \<Rightarrow> (Some (Inl err, t'), Some tb1)
           | (Some None, tb1, t') \<Rightarrow> (Some (P ctx symbols t'), Some tb1)))"

record MinInterval =
  Interval :: int
  mLast :: time

text \<open>
  \<^verbatim>\<open>MinInterval.Fetch\<close>, entered at time \<open>t\<close>: the result, the limiter and the time of
  return. The field \<^verbatim>\<open>last\<close> is \<open>mLast\<close> here; \<open>MinInterval_call\<close> is the part of the
  function after the gate.
\<close>

definition MinInterval_call ::
  "error provider \<Rightarrow> MinInterval \<Rightarrow> context \<Rightarrow> string list \<Rightarrow> time \<Rightarrow>
     (error + Quote list) \<times> MinInterval \<times> time" where
  "MinInterval_call P m ctx symbols t =
     (case P ctx symbols t of
        (res, t2) \<Rightarrow> (res, (if Interval m > 0 then m\<lparr>mLast := t2\<rparr> else m), t2))"

definition MinInterval_Fetch ::
  "error provider \<Rightarrow> MinInterval \<Rightarrow> context \<Rightarrow> string list \<Rightarrow> time \<Rightarrow>
     (error + Quote list) \<times> MinInterval \<times> time" where
  "MinInterval_Fetch P m ctx symbols t =
     (if Interval m > 0 \<and> mLast m + Interval m - t > 0 then
        (case selectTimer ctx (mLast m + Interval m - t) t of
           (CtxDone, t1) \<Rightarrow> (Inl CtxErr, m, t1)
         | (TimerFired, t1) \<Rightarrow> MinInterval_call P m ctx symbols t1)
      else MinInterval_call P m ctx symbols t)"

text \<open>
  The bucket after a run of critical sections entered at the given clock readings, by
  whatever callers; and the range the token counter is to stay in. The rate of a bucket
  made by \<^verbatim>\<open>NewTokenBucket\<close> is positive.
\<close>

definition bucketAfter :: "TokenBucket \<Rightarrow> time list \<Rightarrow> TokenBucket" where
  "bucketAfter tb nows = foldl (\<lambda>b now. fst (waitStep b now)) tb nows"

definition tokensInRange :: "TokenBucket \<Rightarrow> bool" where
  "tokensInRange tb = (0 \<le> tokens tb \<and> tokens tb \<le> capacity tb)"

definition bucketInv :: "TokenBucket \<Rightarrow> bool" where
  "bucketInv tb = (0 < rate tb \<and> tokensInRange tb)"

section \<open>TTL cache decorator\<close>

record entry =
  expiresAt :: time
  quotes :: "Quote list"

text \<open>
  The map \<^verbatim>\<open>items\<close> is an association list with distinct keys, so that \<^verbatim>\<open>len\<close> is its
  length. \<open>P = None\<close> is the nil provider.
\<close>

record 'e Provider =
  P :: "'e provider option"
  TTL :: int
  MaxItems :: int
  items :: "(string \<times> entry) list"

definition validAt :: "time \<Rightarrow> (string \<times> entry) list \<Rightarrow> string \<Rightarrow> bool" where
  "validAt now its s =
     (case map_of its s of Some e \<Rightarrow> now < expiresAt e | None \<Rightarrow> False)"

text \<open>The quotes of the valid entries of the requested symbols, in request order.\<close>

definition cachedQuotes :: "time \<Rightarrow> (string \<times> entry) list \<Rightarrow> string list \<Rightarrow> Quote list" where
  "cachedQuotes now its symbols =
     concat (map (\<lambda>s. case map_of its s of
                         Some e \<Rightarrow> if now < expiresAt e then quotes e else []
                       | None \<Rightarrow> []) symbols)"

text \<open>The elements of a list in the order of their first occurrence.\<close>

fun uniqFrom :: "string list \<Rightarrow> string list \<Rightarrow> string list" where
  "uniqFrom seen [] = []"
| "uniqFrom seen (s # ss) =
     (if s \<in> set seen then uniqFrom seen ss else s # uniqFrom (s # seen) ss)"

definition missingOf :: "time \<Rightarrow> (string \<times> entry) list \<Rightarrow> string list \<Rightarrow> string list" where
  "missingOf now its symbols = uniqFrom [] (filter (\<lambda>s. \<not> validAt now its s) symbols)"

definition groupBySymbol :: "Quote list \<Rightarrow> (string \<times> Quote list) list" where
  "groupBySymbol fresh =
     foldl (\<lambda>m q. AList.update (Symbol q)
                     ((case map_of m (Symbol q) of Some qs \<Rightarrow> qs | None \<Rightarrow> []) @ [q]) m)
           [] fresh"

definition storeFresh ::
  "time \<Rightarrow> (string \<times> Quote list) list \<Rightarrow> (string \<times> entry) list \<Rightarrow> (string \<times> entry) list" where
  "storeFresh expiry bySymbol its =
     foldl (\<lambda>al (sym, qs). AList.update sym \<lparr>expiresAt = expiry, quotes = qs\<rparr> al) its bySymbol"

text \<open>
  The two eviction loops. Each ranges over the map in an order the language leaves open;
  the entries are handed over in the order of the visit. The first loop deletes the
  visited entry when it has expired and stops as soon as the map is small enough; the
  second stops when the map is small enough and deletes the visited entry otherwise.
\<close>

fun evictExpired ::
  "int \<Rightarrow> time \<Rightarrow> (string \<times> entry) list \<Rightarrow> (string \<times> entry) list \<Rightarrow> (string \<times> entry) list" where
  "evictExpired maxItems tnow [] its = its"
| "evictExpired maxItems tnow ((k, v) # rest) its =
     (let its1 = (if tnow > expiresAt v then AList.delete k its else its) in
      if int (length its1) \<le> maxItems then its1
      else evictExpired maxItems tnow rest its1)"

fun evictAny ::
  "int \<Rightarrow> (string \<times> entry) list \<Rightarrow> (string \<times> entry) list \<Rightarrow> (string \<times> entry) list" where
  "evictAny maxItems [] its = its"
| "evictAny maxItems ((k, v) # rest) its =
     (if int (length its) \<le> maxItems then its
      else evictAny maxItems rest (AList.delete k its))"

definition capCache ::
  "int \<Rightarrow> time \<Rightarrow> ((string \<times> entry) list \<Rightarrow> (string \<times> entry) list) \<Rightarrow>
   ((string \<times> entry) list \<Rightarrow> (string \<times> entry) list) \<Rightarrow> (string \<times> entry) list \<Rightarrow>
   (string \<times> entry) list" where
  "capCache maxItems tnow ord1 ord2 its =
     (if maxItems > 0 \<and> int (length its) > maxItems then
        (let its1 = evictExpired maxItems tnow (ord1 its) its
         in evictAny maxItems (ord2 its1) its1)
      else its)"

definition mergeOut ::
  "time \<Rightarrow> (string \<times> Quote list) list \<Rightarrow> (string \<times> entry) list \<Rightarrow> string list \<Rightarrow> Quote list" where
  "mergeOut now bySymbol its symbols =
     concat (map (\<lambda>s. case map_of bySymbol s of
                         Some qs \<Rightarrow> qs
                       | None \<Rightarrow>
                           (case map_of its s of
                              Some e \<Rightarrow> if now < expiresAt e then quotes e else []
                            | None \<Rightarrow> [])) symbols)"

text \<open>
  \<^verbatim>\<open>Provider.Fetch\<close> of the cache, entered at time \<open>t\<close>: the result, the cache and the
  time of return. The clock does not move inside the function except during the call of
  the wrapped provider, so the readings of \<^verbatim>\<open>time.Now()\<close> in the eviction loop are the
  time at which that call returned.
\<close>

definition Fetch ::
  "'e Provider \<Rightarrow> ((string \<times> entry) list \<Rightarrow> (string \<times> entry) list) \<Rightarrow>
   ((string \<times> entry) list \<Rightarrow> (string \<times> entry) list) \<Rightarrow> context \<Rightarrow> string list \<Rightarrow> time \<Rightarrow>
   ('e fault + Quote list) \<times> 'e Provider \<times> time" where
  "Fetch c ord1 ord2 ctx symbols t =
     (case P c of
        None \<Rightarrow> (Inl Panicked, c, t)
      | Some p \<Rightarrow>
          if TTL c \<le> 0 then
            (case p ctx symbols t of
               (Inl err, t2) \<Rightarrow> (Inl (Failed err), c, t2)
             | (Inr qs, t2) \<Rightarrow> (Inr qs, c, t2))
          else
            (let now = t;
                 cached = cachedQuotes now (items c) symbols;
                 missing = missingOf now (items c) symbols
             in if missing = [] then (Inr cached, c, t)
                else
                  (case p ctx missing t of
                     (Inl err, t2) \<Rightarrow>
                       if cached \<noteq> [] then (Inr cached, c, t2)
                       else (Inl (Failed err), c, t2)
                   | (Inr fresh, t2) \<Rightarrow>
                       (let bySymbol = groupBySymbol fresh;
                            its1 = storeFresh (now + TTL c) bySymbol (items c);
                            its2 = capCache (MaxItems c) t2 ord1 ord2 its1
                        in (Inr (mergeOut now bySymbol its2 symbols),
                            c\<lparr>items := its2\<rparr>, t2)))))"

text \<open>
  The request the decorator sends to the wrapped provider, and whether it sends one: with
  caching off it passes the symbols on; otherwise it asks for the missing symbols, when
  there are any.
\<close>

definition wrappedRequest :: "'e Provider \<Rightarrow> string list \<Rightarrow> time \<Rightarrow> string list option" where
  "wrappedRequest c symbols t =
     (if TTL c \<le> 0 then Some symbols
      else if missingOf t (items c) symbols = [] then None
      else Some (missingOf t (items c) symbols))"

text \<open>
  What holds of every cache that \<^verbatim>\<open>Fetch\<close> has built from the empty one: the keys are
  distinct, no entry has an empty list of quotes, and nothing is stored while caching is
  off.
\<close>

definition cacheInv :: "'e Provider \<Rightarrow> bool" where
  "cacheInv c =
     (distinct (map fst (items c))
      \<and> (\<forall>(k, e) \<in> set (items c). quotes e \<noteq> [])
      \<and> (TTL c \<le> 0 \<longrightarrow> items c = []))"

section \<open>Batch splitting and retry\<close>

text \<open>
  What \<^verbatim>\<open>doReq\<close> meets on the network: a transport error, or a response with its status
  code, its body and, when the body decodes, the entries of its \<^verbatim>\<open>data\<close> field. An
  upstream is a function of the context, the batch, the time of the call and its own
  state that gives the reply, the time at which \<^verbatim>\<open>doReq\<close> returns and its new state;
  the wait at the rate gate and the round trip are inside it. An entry
  (\<^verbatim>\<open>json.RawMessage\<close>) is a byte string.
\<close>

datatype reply = NetErr string | Resp int string "string list option"

type_synonym 'u upstream = "context \<Rightarrow> string list \<Rightarrow> time \<Rightarrow> 'u \<Rightarrow> reply \<times> time \<times> 'u"

text \<open>What the program does that can be seen from outside, in order.\<close>

datatype event = Request "string list" | Sleep int | SkipLog int string

record 'u world =
  clock :: time
  ustate :: 'u
  trace :: "event list"

definition classify :: "reply \<Rightarrow> error + string list" where
  "classify rep =
     (case rep of
        NetErr e \<Rightarrow> Inl (OtherErr e)
      | Resp code body decoded \<Rightarrow>
          if code < 200 \<or> code \<ge> 300 then Inl (HttpStatusErr code (take 2048 body))
          else (case decoded of
                  None \<Rightarrow> Inl (OtherErr ''decode'')
                | Some data \<Rightarrow> Inr data))"

definition doReq ::
  "'u upstream \<Rightarrow> context \<Rightarrow> string list \<Rightarrow> 'u world \<Rightarrow> (error + string list) \<times> 'u world" where
  "doReq up ctx names w =
     (case up ctx names (clock w) (ustate w) of
        (rep, t', u') \<Rightarrow>
          (classify rep, \<lparr>clock = t', ustate = u', trace = trace w @ [Request names]\<rparr>))"

text \<open>
  \<^verbatim>\<open>time.Duration(250*(1<<attempt)) * time.Millisecond\<close> in 64-bit arithmetic: the shift
  and the products wrap around.
\<close>

definition backoff :: "nat \<Rightarrow> int" where
  "backoff attempt = sint ((250 * push_bit attempt 1) * 1000000 :: 64 word)"

definition sleepFor :: "int \<Rightarrow> 'u world \<Rightarrow> 'u world" where
  "sleepFor d w = w\<lparr>clock := timeSleep d (clock w), trace := trace w @ [Sleep d]\<rparr>"

definition logSkip :: "int \<Rightarrow> string \<Rightarrow> 'u world \<Rightarrow> 'u world" where
  "logSkip code name w = w\<lparr>trace := trace w @ [SkipLog code name]\<rparr>"

text \<open>
  \<^verbatim>\<open>fetchSplit\<close>: the retry loop with its attempt counter, and the recursion on the two
  halves. The merge of the halves follows the source: both halves are fetched, then the
  error of the left one is returned, else the error of the right one, else the entries of
  both. Reading \<^verbatim>\<open>names[0]\<close> of an empty batch panics; a panic in the left half would
  leave the right half unfetched.
\<close>

definition mergeHalves ::
  "(error fault + string list) \<Rightarrow> (error fault + string list) \<Rightarrow> error fault + string list" where
  "mergeHalves l r =
     (case l of
        Inl lErr \<Rightarrow> Inl lErr
      | Inr lData \<Rightarrow>
          (case r of
             Inl rErr \<Rightarrow> Inl rErr
           | Inr rData \<Rightarrow> Inr (lData @ rData)))"

function fetchSplitLoop ::
  "'u upstream \<Rightarrow> int \<Rightarrow> context \<Rightarrow> nat \<Rightarrow> string list \<Rightarrow> 'u world \<Rightarrow>
     (error fault + string list) \<times> 'u world" where
  "fetchSplitLoop up maxRetries ctx attempt names w =
     (case doReq up ctx names w of
        (Inr data, w1) \<Rightarrow> (Inr data, w1)
      | (Inl (HttpStatusErr code body), w1) \<Rightarrow>
          if code = 400 \<or> code = 413 then
            (if length names \<le> 1 then
               (case names of
                  [] \<Rightarrow> (Inl Panicked, w1)
                | name # _ \<Rightarrow> (Inr [], logSkip code name w1))
             else
               (let mid = length names div 2;
                    left = take mid names;
                    right = drop mid names
                in case fetchSplitLoop up maxRetries ctx 0 left w1 of
                     (Inl Panicked, w2) \<Rightarrow> (Inl Panicked, w2)
                   | (l, w2) \<Rightarrow>
                       (case fetchSplitLoop up maxRetries ctx 0 right w2 of
                          (Inl Panicked, w3) \<Rightarrow> (Inl Panicked, w3)
                        | (r, w3) \<Rightarrow> (mergeHalves l r, w3))))
          else if (code = 429 \<or> (code \<ge> 500 \<and> code < 600)) \<and> int attempt < maxRetries then
            fetchSplitLoop up maxRetries ctx (attempt + 1) names (sleepFor (backoff attempt) w1)
          else (Inl (Failed (HttpStatusErr code body)), w1)
      | (Inl err, w1) \<Rightarrow> (Inl (Failed err), w1))"
  by pat_completeness auto
termination
  by (relation "measures [\<lambda>(up, maxRetries, ctx, attempt, names, w). length names,
                          \<lambda>(up, maxRetries, ctx, attempt, names, w). nat (maxRetries - int attempt)]")
     auto

declare fetchSplitLoop.simps [simp del]

definition fetchSplit ::
  "'u upstream \<Rightarrow> int \<Rightarrow> context \<Rightarrow> string list \<Rightarrow> 'u world \<Rightarrow>
     (error fault + string list) \<times> 'u world" where
  "fetchSplit up maxRetries ctx names w = fetchSplitLoop up maxRetries ctx 0 names w"

text \<open>
  The batches that a bisection under the size limit \<open>K\<close> ends with: a batch within the
  limit survives whole, a single name over the limit is dropped, and any other batch is
  cut at its midpoint. \<open>requestsOf\<close> lists every batch the bisection visits, in order.
\<close>

function survivingBatches :: "nat \<Rightarrow> string list \<Rightarrow> string list list" where
  "survivingBatches K names =
     (if length names \<le> K then [names]
      else if length names \<le> 1 then []
      else survivingBatches K (take (length names div 2) names)
           @ survivingBatches K (drop (length names div 2) names))"
  by pat_completeness auto
termination
  by (relation "measure (\<lambda>(K, names). length names)") auto

declare survivingBatches.simps [simp del]

function requestsOf :: "nat \<Rightarrow> string list \<Rightarrow> string list list" where
  "requestsOf K names =
     (if length names \<le> K \<or> length names \<le> 1 then [names]
      else names # requestsOf K (take (length names div 2) names)
           @ requestsOf K (drop (length names div 2) names))"
  by pat_completeness auto
termination
  by (relation "measure (\<lambda>(K, names). length names)") auto

declare requestsOf.simps [simp del]

text \<open>
  An upstream that rejects every batch of more than \<open>K\<close> names with status 400 or 413
  and answers every other batch \<open>names\<close> with the entries \<open>data names\<close>.
\<close>

definition rejectsOver :: "nat \<Rightarrow> (string list \<Rightarrow> string list) \<Rightarrow> 'u upstream \<Rightarrow> context \<Rightarrow> bool" where
  "rejectsOver K data up ctx =
     (\<forall>names t u.
        case fst (up ctx names t u) of
          NetErr e \<Rightarrow> False
        | Resp code body decoded \<Rightarrow>
            if K < length names then code = 400 \<or> code = 413
            else 200 \<le> code \<and> code < 300 \<and> decoded = Some (data names))"

fun requests :: "event list \<Rightarrow> string list list" where
  "requests [] = []"
| "requests (Request names # es) = names # requests es"
| "requests (e # es) = requests es"

fun sleeps :: "event list \<Rightarrow> int list" where
  "sleeps [] = []"
| "sleeps (Sleep d # es) = d # sleeps es"
| "sleeps (e # es) = sleeps es"

section \<open>Refresh-coalescing payload cache\<close>

text \<open>
  The refresh loop of \<^verbatim>\<open>Provider.Fetch\<close> in the coalescing variant, as one caller runs
  it. The payload of a site is left abstract. \<open>sfDo site\<close> is what \<^verbatim>\<open>p.sf.Do\<close> hands
  this caller for the site, an error or the fetched payload with its expiry, together
  with the reading of \<^verbatim>\<open>time.Now()\<close> at the commit; \<open>env site\<close> is what other callers
  have written to the cache between this caller's snapshot of the site and its commit.
\<close>

record 'p siteCache =
  scItems :: 'p
  until :: time

type_synonym 'p cache = "string \<rightharpoonup> 'p siteCache"

record 'p refreshState =
  cache :: "'p cache"
  anyValid :: bool
  lastErr :: "error option"

text \<open>The write under the lock: only when the entry is absent or expired at that moment.\<close>

definition commitSite :: "'p cache \<Rightarrow> string \<Rightarrow> 'p siteCache \<Rightarrow> time \<Rightarrow> 'p cache" where
  "commitSite c site res tc =
     (case c site of
        None \<Rightarrow> c(site \<mapsto> res)
      | Some sc2 \<Rightarrow> if tc > until sc2 then c(site \<mapsto> res) else c)"

definition isExpired :: "'p cache \<Rightarrow> string \<Rightarrow> time \<Rightarrow> bool" where
  "isExpired c site now = (case c site of None \<Rightarrow> True | Some sc \<Rightarrow> now > until sc)"

definition refreshSite ::
  "time \<Rightarrow> (string \<Rightarrow> (error + 'p siteCache) \<times> time) \<Rightarrow> (string \<Rightarrow> 'p cache \<Rightarrow> 'p cache) \<Rightarrow>
   'p refreshState \<Rightarrow> string \<Rightarrow> 'p refreshState" where
  "refreshSite now sfDo env st site =
     (let expired = isExpired (cache st) site now;
          st1 = (if cache st site \<noteq> None \<and> \<not> expired then st\<lparr>anyValid := True\<rparr> else st)
      in if expired then
           (case sfDo site of
              (Inl err, tc) \<Rightarrow> st1\<lparr>cache := env site (cache st1), lastErr := Some err\<rparr>
            | (Inr res, tc) \<Rightarrow>
                st1\<lparr>cache := commitSite (env site (cache st1)) site res tc, anyValid := True\<rparr>)
         else st1)"

definition refreshSites ::
  "time \<Rightarrow> (string \<Rightarrow> (error + 'p siteCache) \<times> time) \<Rightarrow> (string \<Rightarrow> 'p cache \<Rightarrow> 'p cache) \<Rightarrow>
   'p cache \<Rightarrow> string list \<Rightarrow> 'p refreshState" where
  "refreshSites now sfDo env c sites =
     foldl (refreshSite now sfDo env) \<lparr>cache = c, anyValid = False, lastErr = None\<rparr> sites"

text \<open>The outcome of the loop: the error \<^verbatim>\<open>Fetch\<close> returns when no site has data.\<close>

definition refreshError :: "'p refreshState \<Rightarrow> error option" where
  "refreshError st =
     (if \<not> anyValid st then
        (case lastErr st of
           Some e \<Rightarrow> Some e
         | None \<Rightarrow> Some (OtherErr ''skinstable: no data from any site''))
      else None)"

section \<open>Example inputs\<close>

text \<open>The two quotes of the scenario with their timestamps \<open>T\<close> and \<open>T\<close> plus one hour, two quotes of one group with equal timestamps, and two quotes that differ in currency only.\<close>

definition quoteP1 :: "time \<Rightarrow> Quote" where
  "quoteP1 T = \<lparr>Symbol = ''X'', Price = ''10'', Currency = ''USD'', Source = ''P1:BUFF:sell'', ReceivedAt = T\<rparr>"

definition quoteP2 :: "time \<Rightarrow> Quote" where
  "quoteP2 T = \<lparr>Symbol = ''X'', Price = ''11'', Currency = ''USD'', Source = ''P2:buff'', ReceivedAt = T + hour\<rparr>"





text \<open>
  Upstreams for the examples, all without state and answering at once: one that always
  answers 429 unless the context is done, in which case the request fails with the
  context's error as a transport error; one that rejects batches over a size; and one
  that rejects every batch of more than one name, throttles the name \<open>b\<close> and serves
  every other name.
\<close>

definition upThrottled :: "unit upstream" where
  "upThrottled ctx names t u =
     (if ctxDone ctx t then (NetErr ''context canceled'', t, u)
      else (Resp 429 ''slow down'' None, t, u))"

definition upLimit :: "nat \<Rightarrow> unit upstream" where
  "upLimit K ctx names t u =
     (if K < length names then (Resp 413 ''too large'' None, t, u)
      else (Resp 200 [] (Some (map (\<lambda>n. ''entry:'' @ n) names)), t, u))"

definition upHalfFails :: "unit upstream" where
  "upHalfFails ctx names t u =
     (if 1 < length names then (Resp 413 ''too large'' None, t, u)
      else if names = [''b''] then (Resp 429 ''slow down'' None, t, u)
      else (Resp 200 [] (Some (map (\<lambda>n. ''entry:'' @ n) names)), t, u))"

definition world0 :: "unit world" where
  "world0 = \<lparr>clock = 0, ustate = (), trace = []\<rparr>"

definition emptyBucket :: TokenBucket where
  "emptyBucket = \<lparr>rate = 1, capacity = 1, tokens = 0, last_tb = 0\<rparr>"

definition providerOk :: "error provider" where
  "providerOk ctx symbols t =
     (Inr (map (\<lambda>s. \<lparr>Symbol = s, Price = ''1'', Currency = ''USD'', Source = ''P:BUFF'',
                      ReceivedAt = t\<rparr>) symbols), t)"

definition providerDown :: "error provider" where
  "providerDown ctx symbols t = (Inl (OtherErr ''down''), t)"

text \<open>
  A cache that holds one quote for the symbol \<open>a\<close> until time 10, over a provider that is
  down; and, for the payload cache, a refresh that brings payload 1 valid until 50 and is
  committed at time 12, with another caller that stores payload 2, valid until 40, in the
  meantime.
\<close>

definition quoteA :: Quote where
  "quoteA = \<lparr>Symbol = ''a'', Price = ''1'', Currency = ''USD'', Source = ''P:BUFF'', ReceivedAt = 1\<rparr>"

definition cacheA :: "error Provider" where
  "cacheA = \<lparr>P = Some providerDown, TTL = 10, MaxItems = 0,
             items = [(''a'', \<lparr>expiresAt = 10, quotes = [quoteA]\<rparr>)]\<rparr>"

definition sfDoFresh :: "string \<Rightarrow> (error + nat siteCache) \<times> time" where
  "sfDoFresh site = (Inr \<lparr>scItems = 1, until = 50\<rparr>, 12)"

definition envWrites :: "string \<Rightarrow> nat cache \<Rightarrow> nat cache" where
  "envWrites site c = c(site \<mapsto> \<lparr>scItems = 2, until = 40\<rparr>)"

definition refreshStart :: "nat refreshState" where
  "refreshStart = \<lparr>cache = Map.empty, anyValid = False, lastErr = None\<rparr>"

section \<open>Properties of the aggregation\<close>

subsection \<open>The table after the loop\<close>





lemma lReceivedAt_rowOf [simp]: "lReceivedAt (rowOf now inc q) = effectiveTime now q"
  by (simp add: rowOf_def)





















lemma rowKey_rowOf [simp]: "rowKey (rowOf now inc q) = keyOf inc q"
  by (simp add: rowKey_def rowOf_def keyOf_def)






lemma isPermuting_rev: "isPermuting rev"
  by (simp add: isPermuting_def)

lemma isPermuting_single: "isPermuting ord \<Longrightarrow> ord [x] = [x]"
  unfolding isPermuting_def by (metis mset_single_iff_right mset.simps(1) mset.simps(2))

lemma NormalizeSource_P1: "NormalizeSource ''P1:BUFF:sell'' = (''BUFF'', ''sell'')"
  by code_simp

lemma NormalizeSource_P2: "NormalizeSource ''P2:buff'' = (''BUFF'', [])"
  by code_simp

lemma providerName_P1: "providerName ''P1:BUFF:sell'' = ''P1''"
  by code_simp

lemma providerName_P2: "providerName ''P2:buff'' = ''P2''"
  by code_simp

text \<open>
  Claim C1. The two quotes of the scenario, with sources \<open>P1:BUFF:sell\<close> at time \<open>T\<close> and
  \<open>P2:buff\<close> one hour later, aggregated with the sides ignored, give exactly one row: symbol
  \<open>X\<close>, market \<open>BUFF\<close>, empty side, currency \<open>USD\<close>, price \<open>11\<close>, received at \<open>T\<close> plus
  one hour (and provider \<open>P2\<close>), whatever the iteration order of the map and the time of
  the call. \<open>T\<close> and \<open>T\<close> plus one hour are timestamps that are set, that is, not Go's zero
  time.
\<close>

theorem LatestByMarket_scenario:
  assumes "isPermuting ord" and "T \<noteq> 0" and "T + hour \<noteq> 0"
  shows "LatestByMarket now ord [quoteP1 T, quoteP2 T] False =
           [\<lparr>lSymbol = ''X'', lMarket = ''BUFF'', lSide = [], lCurrency = ''USD'',
             lPrice = ''11'', lProvider = ''P2'', lReceivedAt = T + hour\<rparr>]"
  using assms
  by (simp add: LatestByMarket_def latestTable_def latestStep_def keyOf_def rowOf_def sideOf_def
      effectiveTime_def quoteP1_def quoteP2_def NormalizeSource_P1 NormalizeSource_P2
      providerName_P1 providerName_P2 hour_def isPermuting_single sortSlice_def)

theorem LatestByMarket_scenario_witness:
  "isPermuting (rev :: Latest list \<Rightarrow> Latest list)
   \<and> (63871383845000000000 :: int) \<noteq> 0 \<and> 63871383845000000000 + hour \<noteq> 0
   \<and> LatestByMarket 63900000000000000000 rev
        [quoteP1 63871383845000000000, quoteP2 63871383845000000000] False =
        [\<lparr>lSymbol = ''X'', lMarket = ''BUFF'', lSide = [], lCurrency = ''USD'',
          lPrice = ''11'', lProvider = ''P2'', lReceivedAt = 63871383845000000000 + hour\<rparr>]"
  using LatestByMarket_scenario [of rev 63871383845000000000 63900000000000000000]
  by (simp add: isPermuting_rev hour_def)



subsection \<open>Independence of the input order\<close>












subsection \<open>Sides pass through\<close>

text \<open>Trimming a tag changes no part of it beyond the white space around the part.\<close>

lemma Split_not_Nil [simp]: "Split s sep \<noteq> []"
  by (induction s) (auto split: list.splits)



lemma Split_Cons_other:
  "c \<noteq> sep \<Longrightarrow> Split (c # cs) sep = (c # hd (Split cs sep)) # tl (Split cs sep)"
  by (simp split: list.splits)



lemma trimRight_Nil [simp]: "trimRight [] = []"
  by (simp add: trimRight_def)















section \<open>Properties of the rate limiters\<close>

lemma bucketInv_New: "bucketInv (NewTokenBucket r b t0)"
  by (simp add: bucketInv_def tokensInRange_def NewTokenBucket_def Let_def)

lemma tokens_New: "tokens (NewTokenBucket r b t0) = capacity (NewTokenBucket r b t0)"
  by (simp add: NewTokenBucket_def Let_def)

lemma capacity_New: "capacity (NewTokenBucket r b t0) = of_int (max b 1)"
  by (simp add: NewTokenBucket_def Let_def max_def)

lemma bucketInv_refill: "bucketInv tb \<Longrightarrow> bucketInv (refill tb now)"
  by (auto simp: bucketInv_def tokensInRange_def refill_def Let_def intro: add_nonneg_nonneg)

lemma refill_mono: "bucketInv tb \<Longrightarrow> tokens tb \<le> tokens (refill tb now)"
  by (auto simp: bucketInv_def tokensInRange_def refill_def Let_def)

lemma bucketInv_waitStep: "bucketInv tb \<Longrightarrow> bucketInv (fst (waitStep tb now))"
  using bucketInv_refill [of tb now]
  by (auto simp: waitStep_def Let_def bucketInv_def tokensInRange_def)

lemma bucketInv_bucketAfter: "bucketInv tb \<Longrightarrow> bucketInv (bucketAfter tb nows)"
  unfolding bucketAfter_def
  by (induction nows arbitrary: tb) (simp_all add: bucketInv_waitStep)

lemma waitStep_Acquired:
  assumes "bucketInv tb" "1 \<le> tokens tb"
  shows "waitStep tb now = ((refill tb now)\<lparr>tokens := tokens (refill tb now) - 1\<rparr>, Acquired)"
  using refill_mono [OF assms(1), of now] assms(2) by (simp add: waitStep_def Let_def)

lemma waitMany_burst:
  assumes "bucketInv tb" "real (length ts) \<le> tokens tb"
  shows "fst (waitMany (Suc n) ctx tb ts) = map (\<lambda>t. (Some None, t)) ts"
  using assms
proof (induction ts arbitrary: tb)
  case Nil
  show ?case by simp
next
  case (Cons t ts)
  let ?tb1 = "(refill tb t)\<lparr>tokens := tokens (refill tb t) - 1\<rparr>"
  have one: "1 \<le> tokens tb" using Cons.prems(2) by simp
  have step: "waitStep tb t = (?tb1, Acquired)"
    using waitStep_Acquired [OF Cons.prems(1) one] .
  have inv1: "bucketInv ?tb1"
    using bucketInv_waitStep [OF Cons.prems(1), of t] step by simp
  have "real (length ts) \<le> tokens ?tb1"
    using refill_mono [OF Cons.prems(1), of t] Cons.prems(2) by simp
  from Cons.IH [OF inv1 this] show ?case
    by (auto simp: step split: prod.splits)
qed

text \<open>
  Claim C8. A bucket made by \<open>NewTokenBucket\<close> starts with its token counter equal to
  its capacity; after any run of critical sections of \<open>wait\<close>, and after the refill of
  the next one, the counter lies between 0 and the capacity; and as many calls of
  \<open>wait\<close> as the capacity allows all return \<^verbatim>\<open>nil\<close> at the time at which they were
  made, without waiting, whatever the clock readings and the context.
\<close>

theorem TokenBucket_tokens_in_range:
  "tokens (NewTokenBucket r b t0) = capacity (NewTokenBucket r b t0)
   \<and> tokensInRange (bucketAfter (NewTokenBucket r b t0) nows)
   \<and> tokensInRange (refill (bucketAfter (NewTokenBucket r b t0) nows) now)
   \<and> (real (length ts) \<le> capacity (NewTokenBucket r b t0) \<longrightarrow>
        fst (waitMany (Suc n) ctx (NewTokenBucket r b t0) ts) = map (\<lambda>t. (Some None, t)) ts)"
proof -
  let ?tb = "NewTokenBucket r b t0"
  have inv: "bucketInv (bucketAfter ?tb nows)"
    using bucketInv_New by (rule bucketInv_bucketAfter)
  have "tokensInRange (bucketAfter ?tb nows)"
    using inv by (simp add: bucketInv_def)
  moreover have "tokensInRange (refill (bucketAfter ?tb nows) now)"
    using bucketInv_refill [OF inv] by (simp add: bucketInv_def)
  moreover have "fst (waitMany (Suc n) ctx ?tb ts) = map (\<lambda>t. (Some None, t)) ts"
    if "real (length ts) \<le> capacity ?tb"
    using waitMany_burst [OF bucketInv_New, of ts r b t0 n ctx] that by (simp add: tokens_New)
  ultimately show ?thesis by (simp add: tokens_New)
qed

text \<open>
  A bucket of capacity 3: three calls return at once, even with a context that is
  already done, and the counter stays in range over five critical sections.
\<close>

theorem TokenBucket_tokens_in_range_witness:
  "real (length [0, 0, 7 :: int]) \<le> capacity (NewTokenBucket 2 3 0)
   \<and> fst (waitMany (Suc 0) (Some 0) (NewTokenBucket 2 3 0) [0, 0, 7]) =
       [(Some None, 0), (Some None, 0), (Some None, 7)]
   \<and> tokensInRange (bucketAfter (NewTokenBucket 2 3 0) [0, 0, 0, 0, 1000000000])"
  using TokenBucket_tokens_in_range [of 2 3 0 "[0, 0, 0, 0, 1000000000]" 0 "[0, 0, 7]" 0 "Some 0"]
  by (simp add: NewTokenBucket_def)


section \<open>Properties of the TTL cache\<close>

text \<open>The invariant holds of the empty cache and \<open>Fetch\<close> keeps it.\<close>

lemma cachedQuotes_empty_iff:
  assumes "cacheInv c"
  shows "cachedQuotes t (items c) symbols = [] \<longleftrightarrow> (\<forall>s \<in> set symbols. \<not> validAt t (items c) s)"
proof -
  have ne: "quotes e \<noteq> []" if "map_of (items c) s = Some e" for s e
    using assms that unfolding cacheInv_def by (auto dest: map_of_SomeD)
  show ?thesis
    unfolding cachedQuotes_def validAt_def
    by (auto simp: ne split: option.splits)
qed

lemma wrappedRequest_off: "TTL c \<le> 0 \<Longrightarrow> wrappedRequest c symbols t = Some symbols"
  by (simp add: wrappedRequest_def)

lemma set_update_mem:
  "x \<in> set (AList.update k v al) \<Longrightarrow> x = (k, v) \<or> x \<in> set al"
  by (induction al) (auto split: if_splits)

lemma set_delete_mem: "x \<in> set (AList.delete k al) \<Longrightarrow> x \<in> set al"
  by (induction al) (auto split: if_splits)

lemma distinct_groupBySymbol_aux:
  "distinct (map fst m) \<Longrightarrow> (\<forall>(k, qs) \<in> set m. qs \<noteq> []) \<Longrightarrow>
   distinct (map fst (foldl (\<lambda>m q. AList.update (Symbol q)
                     ((case map_of m (Symbol q) of Some qs \<Rightarrow> qs | None \<Rightarrow> []) @ [q]) m) m fresh))
   \<and> (\<forall>(k, qs) \<in> set (foldl (\<lambda>m q. AList.update (Symbol q)
                     ((case map_of m (Symbol q) of Some qs \<Rightarrow> qs | None \<Rightarrow> []) @ [q]) m) m fresh). qs \<noteq> [])"
proof (induction fresh arbitrary: m)
  case Nil
  then show ?case by simp
next
  case (Cons q fresh)
  let ?m1 = "AList.update (Symbol q) ((case map_of m (Symbol q) of Some qs \<Rightarrow> qs | None \<Rightarrow> []) @ [q]) m"
  have "distinct (map fst ?m1)" using Cons.prems(1) by (simp add: distinct_update)
  moreover have "\<forall>(k, qs) \<in> set ?m1. qs \<noteq> []"
    using Cons.prems(2) by (auto dest!: set_update_mem)
  ultimately show ?case using Cons.IH [of ?m1] by simp
qed

lemma groupBySymbol_nonempty: "(k, qs) \<in> set (groupBySymbol fresh) \<Longrightarrow> qs \<noteq> []"
  using distinct_groupBySymbol_aux [of "[]" fresh] by (auto simp: groupBySymbol_def)

lemma storeFresh_inv:
  "distinct (map fst its) \<Longrightarrow> (\<forall>(k, e) \<in> set its. quotes e \<noteq> []) \<Longrightarrow>
   (\<forall>(k, qs) \<in> set bySymbol. qs \<noteq> []) \<Longrightarrow>
   distinct (map fst (storeFresh expiry bySymbol its))
   \<and> (\<forall>(k, e) \<in> set (storeFresh expiry bySymbol its). quotes e \<noteq> [])"
  unfolding storeFresh_def
proof (induction bySymbol arbitrary: its)
  case Nil
  then show ?case by simp
next
  case (Cons a bySymbol)
  obtain sym qs where a: "a = (sym, qs)" by (cases a)
  let ?its1 = "AList.update sym \<lparr>expiresAt = expiry, quotes = qs\<rparr> its"
  have "distinct (map fst ?its1)" using Cons.prems(1) by (simp add: distinct_update)
  moreover have "\<forall>(k, e) \<in> set ?its1. quotes e \<noteq> []"
    using Cons.prems(2,3) a by (auto dest!: set_update_mem)
  moreover have "\<forall>(k, qs) \<in> set bySymbol. qs \<noteq> []" using Cons.prems(3) by simp
  ultimately show ?case using Cons.IH [of ?its1] a by simp
qed

lemma delete_inv:
  "distinct (map fst its) \<and> (\<forall>(k, e) \<in> set its. quotes e \<noteq> []) \<Longrightarrow>
   distinct (map fst (AList.delete k its)) \<and> (\<forall>(k, e) \<in> set (AList.delete k its). quotes e \<noteq> [])"
  by (auto simp: distinct_delete dest: set_delete_mem)

lemma evictExpired_inv:
  "distinct (map fst its) \<and> (\<forall>(k, e) \<in> set its. quotes e \<noteq> []) \<Longrightarrow>
   distinct (map fst (evictExpired maxItems tnow visit its))
   \<and> (\<forall>(k, e) \<in> set (evictExpired maxItems tnow visit its). quotes e \<noteq> [])"
proof (induction maxItems tnow visit its rule: evictExpired.induct)
  case (1 maxItems tnow its)
  then show ?case by simp
next
  case (2 maxItems tnow k v rest its)
  let ?its1 = "if expiresAt v < tnow then AList.delete k its else its"
  have i1: "distinct (map fst ?its1) \<and> (\<forall>(k, e) \<in> set ?its1. quotes e \<noteq> [])"
    using "2.prems" delete_inv [of its k] by simp
  show ?case
  proof (cases "int (length ?its1) \<le> maxItems")
    case True
    with i1 show ?thesis by (simp add: Let_def)
  next
    case False
    with "2.IH" [OF refl False i1] show ?thesis by (simp add: Let_def)
  qed
qed

lemma evictAny_inv:
  "distinct (map fst its) \<and> (\<forall>(k, e) \<in> set its. quotes e \<noteq> []) \<Longrightarrow>
   distinct (map fst (evictAny maxItems visit its))
   \<and> (\<forall>(k, e) \<in> set (evictAny maxItems visit its). quotes e \<noteq> [])"
proof (induction maxItems visit its rule: evictAny.induct)
  case (1 maxItems its)
  then show ?case by simp
next
  case (2 maxItems k v rest its)
  show ?case
  proof (cases "int (length its) \<le> maxItems")
    case True
    with "2.prems" show ?thesis by simp
  next
    case False
    with "2.IH" [OF False delete_inv [OF "2.prems", of k]] show ?thesis by simp
  qed
qed

lemma capCache_inv:
  "distinct (map fst its) \<and> (\<forall>(k, e) \<in> set its. quotes e \<noteq> []) \<Longrightarrow>
   distinct (map fst (capCache maxItems tnow ord1 ord2 its))
   \<and> (\<forall>(k, e) \<in> set (capCache maxItems tnow ord1 ord2 its). quotes e \<noteq> [])"
  using evictAny_inv [OF evictExpired_inv]
  by (simp add: capCache_def Let_def)

lemma cacheInv_empty: "cacheInv \<lparr>P = p, TTL = ttl, MaxItems = n, items = []\<rparr>"
  by (simp add: cacheInv_def)

lemma cacheInv_Fetch:
  assumes "cacheInv c"
  shows "cacheInv (fst (snd (Fetch c ord1 ord2 ctx symbols t)))"
proof (cases "P c")
  case None
  with assms show ?thesis by (simp add: Fetch_def)
next
  case (Some p)
  show ?thesis
  proof (cases "TTL c \<le> 0")
    case True
    with Some assms show ?thesis by (simp add: Fetch_def split: prod.splits sum.splits)
  next
    case off: False
    show ?thesis
    proof (cases "missingOf t (items c) symbols = []")
      case True
      with Some off assms show ?thesis by (simp add: Fetch_def Let_def)
    next
      case False
      obtain r t2 where r: "p ctx (missingOf t (items c) symbols) t = (r, t2)"
        by (cases "p ctx (missingOf t (items c) symbols) t")
      show ?thesis
      proof (cases r)
        case (Inl err)
        with Some off False r assms show ?thesis by (simp add: Fetch_def Let_def)
      next
        case (Inr fresh)
        have "distinct (map fst (items c)) \<and> (\<forall>(k, e) \<in> set (items c). quotes e \<noteq> [])"
          using assms by (simp add: cacheInv_def)
        then have "distinct (map fst (storeFresh (t + TTL c) (groupBySymbol fresh) (items c)))
           \<and> (\<forall>(k, e) \<in> set (storeFresh (t + TTL c) (groupBySymbol fresh) (items c)). quotes e \<noteq> [])"
          using storeFresh_inv [of "items c" "groupBySymbol fresh" "t + TTL c"] groupBySymbol_nonempty
          by blast
        from capCache_inv [OF this, of "MaxItems c" t2 ord1 ord2]
        show ?thesis
          using Some off False r Inr by (simp add: Fetch_def Let_def cacheInv_def)
      qed
    qed
  qed
qed

text \<open>
  Claim C4. When the decorator calls the wrapped provider and the call returns an error:
  if at least one requested symbol has an unexpired entry, \<open>Fetch\<close> returns the quotes
  of the unexpired entries of the requested symbols, and no error; if none has,
  \<open>Fetch\<close> returns the error of the wrapped provider. The cache is left as it was.
\<close>

theorem Fetch_wrapped_error:
  assumes "cacheInv c" and "P c = Some p"
    and "wrappedRequest c symbols t = Some req"
    and "p ctx req t = (Inl e, t2)"
  shows "Fetch c ord1 ord2 ctx symbols t =
           ((if \<exists>s \<in> set symbols. validAt t (items c) s
             then Inr (cachedQuotes t (items c) symbols)
             else Inl (Failed e)), c, t2)"
proof (cases "TTL c \<le> 0")
  case True
  then have "items c = []" using assms(1) by (simp add: cacheInv_def)
  then have "\<not> (\<exists>s \<in> set symbols. validAt t (items c) s)"
    by (simp add: validAt_def)
  moreover have "req = symbols" using assms(3) True by (simp add: wrappedRequest_def)
  ultimately show ?thesis
    using True assms(2,4) by (simp add: Fetch_def)
next
  case False
  then have m: "missingOf t (items c) symbols = req" "req \<noteq> []"
    using assms(3) by (auto simp: wrappedRequest_def split: if_splits)
  show ?thesis
    using False m assms(2,4) cachedQuotes_empty_iff [OF assms(1), of t symbols]
    by (auto simp: Fetch_def Let_def)
qed

text \<open>
  A cache that holds \<open>a\<close> until time 10, over a provider that is down, asked for
  \<open>a\<close> and \<open>c\<close>: at time 5 the answer is the cached quote, at time 10 the error.
\<close>

theorem Fetch_wrapped_error_witness:
  "cacheInv cacheA \<and> P cacheA = Some providerDown
   \<and> wrappedRequest cacheA [''a'', ''c''] 5 = Some [''c'']
   \<and> providerDown None [''c''] 5 = (Inl (OtherErr ''down''), 5)
   \<and> Fetch cacheA id id None [''a'', ''c''] 5 = (Inr [quoteA], cacheA, 5)
   \<and> wrappedRequest cacheA [''a'', ''c''] 10 = Some [''a'', ''c'']
   \<and> Fetch cacheA id id None [''a'', ''c''] 10 = (Inl (Failed (OtherErr ''down'')), cacheA, 10)"
proof -
  have h1: "cacheInv cacheA" by (simp add: cacheInv_def cacheA_def)
  have h2: "P cacheA = Some providerDown" by (simp add: cacheA_def)
  have h3: "wrappedRequest cacheA [''a'', ''c''] 5 = Some [''c'']"
    by (simp add: wrappedRequest_def missingOf_def validAt_def cacheA_def)
  have h4: "providerDown ctx syms t = (Inl (OtherErr ''down''), t)" for ctx syms t
    by (simp add: providerDown_def)
  have h5: "wrappedRequest cacheA [''a'', ''c''] 10 = Some [''a'', ''c'']"
    by (simp add: wrappedRequest_def missingOf_def validAt_def cacheA_def)
  have v1: "validAt 5 (items cacheA) ''a''" "\<not> validAt 10 (items cacheA) ''a''"
    "\<not> validAt 10 (items cacheA) ''c''"
    by (simp_all add: validAt_def cacheA_def)
  have q: "cachedQuotes 5 (items cacheA) [''a'', ''c''] = [quoteA]"
    by (simp add: cachedQuotes_def cacheA_def)
  show ?thesis
    using Fetch_wrapped_error [OF h1 h2 h3 h4, where ctx = None and ?ord1.0 = id and ?ord2.0 = id]
      Fetch_wrapped_error [OF h1 h2 h5 h4, where ctx = None and ?ord1.0 = id and ?ord2.0 = id]
      h1 h2 h3 h4 h5 v1 q
    by simp
qed

section \<open>Properties of the batch splitter\<close>

subsection \<open>The branches of the loop\<close>

lemma fetchSplitLoop_ok:
  "doReq up ctx names w = (Inr data, w1) \<Longrightarrow>
   fetchSplitLoop up maxRetries ctx attempt names w = (Inr data, w1)"
  by (subst fetchSplitLoop.simps) simp

lemma fetchSplitLoop_other:
  "doReq up ctx names w = (Inl err, w1) \<Longrightarrow> \<forall>code body. err \<noteq> HttpStatusErr code body \<Longrightarrow>
   fetchSplitLoop up maxRetries ctx attempt names w = (Inl (Failed err), w1)"
  by (subst fetchSplitLoop.simps) (simp split: error.splits)

lemma fetchSplitLoop_panic:
  "doReq up ctx [] w = (Inl (HttpStatusErr code body), w1) \<Longrightarrow> code = 400 \<or> code = 413 \<Longrightarrow>
   fetchSplitLoop up maxRetries ctx attempt [] w = (Inl Panicked, w1)"
  by (subst fetchSplitLoop.simps) simp

lemma fetchSplitLoop_skip:
  "doReq up ctx [name] w = (Inl (HttpStatusErr code body), w1) \<Longrightarrow> code = 400 \<or> code = 413 \<Longrightarrow>
   fetchSplitLoop up maxRetries ctx attempt [name] w = (Inr [], logSkip code name w1)"
  by (subst fetchSplitLoop.simps) simp

lemma fetchSplitLoop_split:
  assumes "doReq up ctx names w = (Inl (HttpStatusErr code body), w1)"
    and "code = 400 \<or> code = 413" and "1 < length names"
    and "fetchSplitLoop up maxRetries ctx 0 (take (length names div 2) names) w1 = (l, w2)"
    and "l \<noteq> Inl Panicked"
    and "fetchSplitLoop up maxRetries ctx 0 (drop (length names div 2) names) w2 = (r, w3)"
    and "r \<noteq> Inl Panicked"
  shows "fetchSplitLoop up maxRetries ctx attempt names w = (mergeHalves l r, w3)"
proof -
  have not: "\<not> length names \<le> 1" using assms(3) by simp
  have l: "(case l of Inl Panicked \<Rightarrow> a | Inl (Failed e) \<Rightarrow> b e | Inr d \<Rightarrow> c d) =
           (case l of Inl f \<Rightarrow> (case f of Failed e \<Rightarrow> b e | Panicked \<Rightarrow> a) | Inr d \<Rightarrow> c d)" for a b c
    by (simp split: sum.splits fault.splits)
  show ?thesis
    using assms(1,2,4,5,6,7) not
    by (subst fetchSplitLoop.simps) (auto simp: Let_def split: sum.splits fault.splits)
qed

lemma fetchSplitLoop_retry:
  assumes "doReq up ctx names w = (Inl (HttpStatusErr code body), w1)"
    and "code = 429 \<or> (500 \<le> code \<and> code < 600)"
    and "int attempt < maxRetries"
  shows "fetchSplitLoop up maxRetries ctx attempt names w =
           fetchSplitLoop up maxRetries ctx (attempt + 1) names (sleepFor (backoff attempt) w1)"
  using assms by (subst fetchSplitLoop.simps) auto

lemma fetchSplitLoop_fail:
  assumes "doReq up ctx names w = (Inl (HttpStatusErr code body), w1)"
    and "code \<noteq> 400" "code \<noteq> 413"
    and "\<not> ((code = 429 \<or> (500 \<le> code \<and> code < 600)) \<and> int attempt < maxRetries)"
  shows "fetchSplitLoop up maxRetries ctx attempt names w =
           (Inl (Failed (HttpStatusErr code body)), w1)"
  using assms by (subst fetchSplitLoop.simps) auto

lemma fetchSplit_induct [consumes 0, case_names step]:
  assumes step: "\<And>attempt names w.
      (\<And>attempt' names' w'. length names' < length names \<Longrightarrow> Q attempt' names' w') \<Longrightarrow>
      (\<And>w'. int attempt < maxRetries \<Longrightarrow> Q (attempt + 1) names w') \<Longrightarrow>
      Q attempt names w"
  shows "Q attempt (names :: string list) (w :: 'u world)"
proof -
  have wf: "wf (measures [\<lambda>(a, ns). length ns, \<lambda>(a :: nat, ns :: string list). nat (maxRetries - int a)])"
    by simp
  have "\<forall>w. Q (fst x) (snd x) w" for x
  proof (induct x rule: wf_induct_rule [OF wf])
    fix x :: "nat \<times> string list"
    assume less: "\<And>y. (y, x) \<in> measures [\<lambda>(a, ns). length ns, \<lambda>(a, ns). nat (maxRetries - int a)]
                    \<Longrightarrow> \<forall>w. Q (fst y) (snd y) w"
    show "\<forall>w. Q (fst x) (snd x) w"
    proof
      fix w :: "'u world"
      show "Q (fst x) (snd x) w"
      proof (rule step)
        fix attempt' :: nat and names' :: "string list" and w' :: "'u world"
        assume "length names' < length (snd x)"
        then show "Q attempt' names' w'"
          using less [of "(attempt', names')"] by (cases x) simp
      next
        fix w' :: "'u world"
        assume "int (fst x) < maxRetries"
        then show "Q (fst x + 1) (snd x) w'"
          using less [of "(fst x + 1, snd x)"] by (cases x) simp
      qed
    qed
  qed
  from this [of "(attempt, names)"] show ?thesis by simp
qed

lemma mergeHalves_not_Panicked:
  "l \<noteq> Inl Panicked \<Longrightarrow> r \<noteq> Inl Panicked \<Longrightarrow> mergeHalves l r \<noteq> Inl Panicked"
  by (auto simp: mergeHalves_def split: sum.splits)

lemma fetchSplitLoop_not_Panicked:
  "names \<noteq> [] \<Longrightarrow> fst (fetchSplitLoop up maxRetries ctx attempt names w) \<noteq> Inl Panicked"
proof (induction attempt names w rule: fetchSplit_induct [where maxRetries = maxRetries])
  case (step attempt names w)
  obtain res w1 where d: "doReq up ctx names w = (res, w1)" by (cases "doReq up ctx names w")
  show ?case
  proof (cases res)
    case (Inr data)
    with d show ?thesis by (simp add: fetchSplitLoop_ok)
  next
    case (Inl err)
    show ?thesis
    proof (cases "\<exists>code body. err = HttpStatusErr code body")
      case False
      with d Inl have "fetchSplitLoop up maxRetries ctx attempt names w = (Inl (Failed err), w1)"
        by (intro fetchSplitLoop_other) auto
      then show ?thesis by simp
    next
      case True
      then obtain code body where err: "err = HttpStatusErr code body" by blast
      note h = d [unfolded Inl err]
      consider (split) "code = 400 \<or> code = 413"
        | (retry) "code \<noteq> 400" "code \<noteq> 413" "(code = 429 \<or> (500 \<le> code \<and> code < 600)) \<and> int attempt < maxRetries"
        | (fail) "code \<noteq> 400" "code \<noteq> 413" "\<not> ((code = 429 \<or> (500 \<le> code \<and> code < 600)) \<and> int attempt < maxRetries)"
        by blast
      then show ?thesis
      proof cases
        case split
        show ?thesis
        proof (cases "1 < length names")
          case False
          with step.prems obtain name where "names = [name]"
            by (cases names) auto
          with h split show ?thesis by (simp add: fetchSplitLoop_skip)
        next
          case True
          let ?left = "take (length names div 2) names" and ?right = "drop (length names div 2) names"
          have ne: "?left \<noteq> []" "?right \<noteq> []" and lt: "length ?left < length names" "length ?right < length names"
            using True by auto
          obtain l w2 where L: "fetchSplitLoop up maxRetries ctx 0 ?left w1 = (l, w2)"
            by (cases "fetchSplitLoop up maxRetries ctx 0 ?left w1")
          obtain r w3 where R: "fetchSplitLoop up maxRetries ctx 0 ?right w2 = (r, w3)"
            by (cases "fetchSplitLoop up maxRetries ctx 0 ?right w2")
          have l: "l \<noteq> Inl Panicked" using step.IH(1) [OF lt(1) ne(1), of 0 w1] L by simp
          have r: "r \<noteq> Inl Panicked" using step.IH(1) [OF lt(2) ne(2), of 0 w2] R by simp
          show ?thesis
            using fetchSplitLoop_split [OF h split True L l R r] mergeHalves_not_Panicked [OF l r]
            by simp
        qed
      next
        case retry
        then have c: "code = 429 \<or> (500 \<le> code \<and> code < 600)" and a: "int attempt < maxRetries"
          by blast+
        show ?thesis
          using fetchSplitLoop_retry [OF h c a] step.IH(2) [OF a step.prems] by simp
      next
        case fail
        show ?thesis using fetchSplitLoop_fail [OF h fail] by simp
      qed
    qed
  qed
qed

subsection \<open>An upstream with a size limit\<close>

lemma requests_append [simp]: "requests (xs @ ys) = requests xs @ requests ys"
  by (induction xs rule: requests.induct) simp_all

lemma sleeps_append [simp]: "sleeps (xs @ ys) = sleeps xs @ sleeps ys"
  by (induction xs rule: sleeps.induct) simp_all

lemma doReq_rejected:
  assumes "rejectsOver K data up ctx" and "K < length names"
  shows "\<exists>code body w1. doReq up ctx names w = (Inl (HttpStatusErr code body), w1)
           \<and> (code = 400 \<or> code = 413) \<and> trace w1 = trace w @ [Request names]"
proof -
  obtain rep t' u' where u: "up ctx names (clock w) (ustate w) = (rep, t', u')"
    by (cases "up ctx names (clock w) (ustate w)")
  have "case rep of NetErr e \<Rightarrow> False
         | Resp code body decoded \<Rightarrow> code = 400 \<or> code = 413"
    using assms(1) [unfolded rejectsOver_def, rule_format, of names "clock w" "ustate w"] u assms(2)
    by (simp split: reply.splits)
  then obtain code body decoded where "rep = Resp code body decoded" "code = 400 \<or> code = 413"
    by (cases rep) auto
  with u show ?thesis
    by (auto simp: doReq_def classify_def)
qed

lemma doReq_accepted:
  assumes "rejectsOver K data up ctx" and "length names \<le> K"
  shows "\<exists>w1. doReq up ctx names w = (Inr (data names), w1)
           \<and> trace w1 = trace w @ [Request names]"
proof -
  obtain rep t' u' where u: "up ctx names (clock w) (ustate w) = (rep, t', u')"
    by (cases "up ctx names (clock w) (ustate w)")
  have "case rep of NetErr e \<Rightarrow> False
         | Resp code body decoded \<Rightarrow> 200 \<le> code \<and> code < 300 \<and> decoded = Some (data names)"
    using assms(1) [unfolded rejectsOver_def, rule_format, of names "clock w" "ustate w"] u assms(2)
    by (simp split: reply.splits)
  then obtain code body where "rep = Resp code body (Some (data names))" "200 \<le> code" "code < 300"
    by (cases rep) auto
  with u show ?thesis
    by (auto simp: doReq_def classify_def)
qed

lemma fetchSplitLoop_rejectsOver:
  assumes "rejectsOver K data up ctx"
  shows "\<exists>w'. fetchSplitLoop up maxRetries ctx attempt names w =
                 (Inr (concat (map data (survivingBatches K names))), w')
             \<and> requests (trace w') = requests (trace w) @ requestsOf K names
             \<and> sleeps (trace w') = sleeps (trace w)"
proof (induction names arbitrary: attempt w rule: length_induct)
  case (1 names)
  show ?case
  proof (cases "length names \<le> K")
    case True
    from doReq_accepted [OF assms True, of w] obtain w1 where
      "doReq up ctx names w = (Inr (data names), w1)" "trace w1 = trace w @ [Request names]"
      by blast
    moreover have "survivingBatches K names = [names]"
      using True by (simp add: survivingBatches.simps [of K names])
    moreover have "requestsOf K names = [names]"
      using True by (simp add: requestsOf.simps [of K names])
    ultimately show ?thesis
      by (simp add: fetchSplitLoop_ok)
  next
    case False
    then have over: "K < length names" by simp
    from doReq_rejected [OF assms over, of w] obtain code body w1 where
      d: "doReq up ctx names w = (Inl (HttpStatusErr code body), w1)"
      and c: "code = 400 \<or> code = 413" and t: "trace w1 = trace w @ [Request names]"
      by blast
    show ?thesis
    proof (cases "1 < length names")
      case single: False
      with over obtain name where n: "names = [name]" by (cases names) auto
      have sb: "survivingBatches K names = []"
        using over single by (simp add: survivingBatches.simps [of K names])
      have rq: "requestsOf K names = [names]"
        using single by (simp add: requestsOf.simps [of K names])
      have "fetchSplitLoop up maxRetries ctx attempt names w = (Inr [], logSkip code name w1)"
        using fetchSplitLoop_skip [OF d [unfolded n] c] n by simp
      then show ?thesis
        using t by (simp add: sb rq logSkip_def)
    next
      case True
      let ?left = "take (length names div 2) names" and ?right = "drop (length names div 2) names"
      have lt: "length ?left < length names" "length ?right < length names"
        using True by auto
      from 1 lt(1) obtain w2 where
        L: "fetchSplitLoop up maxRetries ctx 0 ?left w1 = (Inr (concat (map data (survivingBatches K ?left))), w2)"
        and Lr: "requests (trace w2) = requests (trace w1) @ requestsOf K ?left"
        and Ls: "sleeps (trace w2) = sleeps (trace w1)"
        by blast
      from 1 lt(2) obtain w3 where
        R: "fetchSplitLoop up maxRetries ctx 0 ?right w2 = (Inr (concat (map data (survivingBatches K ?right))), w3)"
        and Rr: "requests (trace w3) = requests (trace w2) @ requestsOf K ?right"
        and Rs: "sleeps (trace w3) = sleeps (trace w2)"
        by blast
      have "fetchSplitLoop up maxRetries ctx attempt names w =
              (mergeHalves (Inr (concat (map data (survivingBatches K ?left))))
                           (Inr (concat (map data (survivingBatches K ?right)))), w3)"
        by (rule fetchSplitLoop_split [OF d c True L _ R]) simp_all
      moreover have "survivingBatches K names = survivingBatches K ?left @ survivingBatches K ?right"
        using True over by (simp add: survivingBatches.simps [of K names])
      moreover have "requestsOf K names = names # requestsOf K ?left @ requestsOf K ?right"
        using True over by (simp add: requestsOf.simps [of K names])
      ultimately show ?thesis
        using Lr Ls Rr Rs t by (simp add: mergeHalves_def)
    qed
  qed
qed

lemma survivingBatches_length:
  "b \<in> set (survivingBatches K names) \<Longrightarrow> length b \<le> K"
  by (induction K names rule: survivingBatches.induct)
     (subst (asm) survivingBatches.simps, auto split: if_splits)

lemma survivingBatches_concat:
  "0 < K \<Longrightarrow> concat (survivingBatches K names) = names"
proof (induction K names rule: survivingBatches.induct)
  case (1 K names)
  show ?case
  proof (cases "length names \<le> K")
    case True
    then show ?thesis by (simp add: survivingBatches.simps [of K names])
  next
    case False
    with "1.prems" have "\<not> length names \<le> 1" by simp
    with False "1.IH" "1.prems" show ?thesis
      by (simp add: survivingBatches.simps [of K names])
  qed
qed

lemma survivingBatches_zero:
  "names \<noteq> [] \<Longrightarrow> survivingBatches 0 names = []"
proof (induction names rule: length_induct)
  case (1 names)
  show ?case
  proof (cases "length names \<le> 1")
    case True
    with "1.prems" show ?thesis by (simp add: survivingBatches.simps [of 0 names])
  next
    case False
    then have "take (length names div 2) names \<noteq> []" "drop (length names div 2) names \<noteq> []"
      "length (take (length names div 2) names) < length names"
      "length (drop (length names div 2) names) < length names"
      by auto
    with 1 False show ?thesis
      by (simp add: survivingBatches.simps [of 0 names])
  qed
qed

lemma rejectsOver_upLimit: "rejectsOver K (map (\<lambda>n. ''entry:'' @ n)) (upLimit K) ctx"
  by (simp add: rejectsOver_def upLimit_def)

text \<open>
  Claim C5. Against an upstream that rejects with 400 or 413 every batch of more than
  \<open>K\<close> names and serves every other batch, \<open>fetchSplit\<close> returns without error the
  entries of the surviving batches of the bisection, in order: what fetching each of
  them directly gives. It requests each batch of the bisection once and never sleeps.
  Every surviving batch is within the limit; for a positive limit the surviving batches
  make up the names; with the limit 0 every name ends as a batch of one that is still
  rejected, and is skipped: no entries, no error, one request.
\<close>

theorem fetchSplit_size_limit:
  assumes "rejectsOver K data up ctx"
  shows "(\<exists>w'. fetchSplit up maxRetries ctx names w =
                 (Inr (concat (map data (survivingBatches K names))), w')
             \<and> requests (trace w') = requests (trace w) @ requestsOf K names
             \<and> sleeps (trace w') = sleeps (trace w))
         \<and> (\<forall>b \<in> set (survivingBatches K names). length b \<le> K)
         \<and> (0 < K \<longrightarrow> concat (survivingBatches K names) = names)
         \<and> (K = 0 \<and> names \<noteq> [] \<longrightarrow> survivingBatches K names = [])"
proof (intro conjI)
  show "\<exists>w'. fetchSplit up maxRetries ctx names w =
                 (Inr (concat (map data (survivingBatches K names))), w')
             \<and> requests (trace w') = requests (trace w) @ requestsOf K names
             \<and> sleeps (trace w') = sleeps (trace w)"
    unfolding fetchSplit_def by (rule fetchSplitLoop_rejectsOver [OF assms])
  show "\<forall>b \<in> set (survivingBatches K names). length b \<le> K"
    by (simp add: survivingBatches_length)
  show "0 < K \<longrightarrow> concat (survivingBatches K names) = names"
    by (simp add: survivingBatches_concat)
  show "K = 0 \<and> names \<noteq> [] \<longrightarrow> survivingBatches K names = []"
    by (simp add: survivingBatches_zero)
qed

text \<open>
  Five names against the limit 2, and one name against the limit 0.
\<close>

theorem fetchSplit_size_limit_witness:
  "rejectsOver 2 (map (\<lambda>n. ''entry:'' @ n)) (upLimit 2) None
   \<and> fst (fetchSplit (upLimit 2) 3 None [''a'', ''b'', ''c'', ''d'', ''e''] world0) =
       Inr [''entry:a'', ''entry:b'', ''entry:c'', ''entry:d'', ''entry:e'']
   \<and> survivingBatches 2 [''a'', ''b'', ''c'', ''d'', ''e''] = [[''a'', ''b''], [''c''], [''d'', ''e'']]
   \<and> rejectsOver 0 (map (\<lambda>n. ''entry:'' @ n)) (upLimit 0) None
   \<and> fetchSplit (upLimit 0) 3 None [''a''] world0 =
       (Inr [], \<lparr>clock = 0, ustate = (), trace = [Request [''a''], SkipLog 413 ''a'']\<rparr>)"
proof -
  have s: "survivingBatches 2 [''a'', ''b'', ''c'', ''d'', ''e''] = [[''a'', ''b''], [''c''], [''d'', ''e'']]"
    by code_simp
  have f0: "fetchSplit (upLimit 0) 3 None [''a''] world0 =
       (Inr [], \<lparr>clock = 0, ustate = (), trace = [Request [''a''], SkipLog 413 ''a'']\<rparr>)"
    by code_simp
  show ?thesis
    using fetchSplit_size_limit [OF rejectsOver_upLimit [of 2 None], of 3 "[''a'', ''b'', ''c'', ''d'', ''e'']" world0]
      rejectsOver_upLimit [of 2 None] rejectsOver_upLimit [of 0 None] s f0
    by auto
qed

subsection \<open>A half that fails\<close>

text \<open>
  Claim C6, as stated, fails. The batch of \<open>a\<close> and \<open>b\<close> is rejected and cut in two;
  \<open>a\<close> is fetched, \<open>b\<close> is throttled on every attempt and runs out of retries. The
  result of the whole batch is the error alone: the entry of \<open>a\<close> does not appear.
\<close>

theorem fetchSplit_half_error_counterexample:
  "fetchSplit upHalfFails 1 None [''a'', ''b''] world0 =
     (Inl (Failed (HttpStatusErr 429 ''slow down'')),
      \<lparr>clock = 250000000, ustate = (),
        trace = [Request [''a'', ''b''], Request [''a''], Request [''b''], Sleep 250000000,
                 Request [''b'']]\<rparr>)
   \<and> fetchSplit upHalfFails 1 None [''a'']
        \<lparr>clock = 0, ustate = (), trace = [Request [''a'', ''b'']]\<rparr> =
     (Inr [''entry:a''],
      \<lparr>clock = 0, ustate = (), trace = [Request [''a'', ''b''], Request [''a'']]\<rparr>)"
  by code_simp

text \<open>
  Claim C6, amended. When a batch is cut in two and a half ends in an error, for instance
  by running out of retries, both halves are still fetched, and the result of the batch is
  the error of the left half, or else that of the right half; no entry of the other half
  is returned.
\<close>

theorem fetchSplit_half_error:
  assumes "doReq up ctx names w = (Inl (HttpStatusErr code body), w1)"
    and "code = 400 \<or> code = 413" and "1 < length names"
    and "fetchSplit up maxRetries ctx (take (length names div 2) names) w1 = (l, w2)"
    and "fetchSplit up maxRetries ctx (drop (length names div 2) names) w2 = (r, w3)"
    and "l = Inl (Failed e) \<or> (l = Inr entries \<and> r = Inl (Failed e))"
  shows "fetchSplit up maxRetries ctx names w = (Inl (Failed e), w3)"
proof -
  have ne: "take (length names div 2) names \<noteq> []" "drop (length names div 2) names \<noteq> []"
    using assms(3) by auto
  have l: "l \<noteq> Inl Panicked"
    using fetchSplitLoop_not_Panicked [OF ne(1), of up maxRetries ctx 0 w1] assms(4)
    by (simp add: fetchSplit_def)
  have r: "r \<noteq> Inl Panicked"
    using fetchSplitLoop_not_Panicked [OF ne(2), of up maxRetries ctx 0 w2] assms(5)
    by (simp add: fetchSplit_def)
  have "fetchSplit up maxRetries ctx names w = (mergeHalves l r, w3)"
    using fetchSplitLoop_split [OF assms(1,2,3) _ l _ r] assms(4,5) by (simp add: fetchSplit_def)
  moreover have "mergeHalves l r = Inl (Failed e)"
    using assms(6) by (auto simp: mergeHalves_def)
  ultimately show ?thesis by simp
qed

text \<open>
  The amended claim at the batch of \<open>a\<close> and \<open>b\<close> above.
\<close>

theorem fetchSplit_half_error_witness:
  "doReq upHalfFails None [''a'', ''b''] world0 =
     (Inl (HttpStatusErr 413 ''too large''), \<lparr>clock = 0, ustate = (), trace = [Request [''a'', ''b'']]\<rparr>)
   \<and> (1 :: nat) < length [''a'', ''b'']
   \<and> fetchSplit upHalfFails 1 None (take (length [''a'', ''b''] div 2) [''a'', ''b''])
        \<lparr>clock = 0, ustate = (), trace = [Request [''a'', ''b'']]\<rparr> =
       (Inr [''entry:a''], \<lparr>clock = 0, ustate = (), trace = [Request [''a'', ''b''], Request [''a'']]\<rparr>)
   \<and> fetchSplit upHalfFails 1 None (drop (length [''a'', ''b''] div 2) [''a'', ''b''])
        \<lparr>clock = 0, ustate = (), trace = [Request [''a'', ''b''], Request [''a'']]\<rparr> =
       (Inl (Failed (HttpStatusErr 429 ''slow down'')),
        \<lparr>clock = 250000000, ustate = (),
          trace = [Request [''a'', ''b''], Request [''a''], Request [''b''], Sleep 250000000,
                   Request [''b'']]\<rparr>)
   \<and> fetchSplit upHalfFails 1 None [''a'', ''b''] world0 =
       (Inl (Failed (HttpStatusErr 429 ''slow down'')),
        \<lparr>clock = 250000000, ustate = (),
          trace = [Request [''a'', ''b''], Request [''a''], Request [''b''], Sleep 250000000,
                   Request [''b'']]\<rparr>)"
proof -
  let ?w1 = "\<lparr>clock = 0, ustate = (), trace = [Request [''a'', ''b'']]\<rparr> :: unit world"
  let ?w2 = "\<lparr>clock = 0, ustate = (), trace = [Request [''a'', ''b''], Request [''a'']]\<rparr> :: unit world"
  let ?w3 = "\<lparr>clock = 250000000, ustate = (),
          trace = [Request [''a'', ''b''], Request [''a''], Request [''b''], Sleep 250000000,
                   Request [''b'']]\<rparr> :: unit world"
  have h1: "doReq upHalfFails None [''a'', ''b''] world0 = (Inl (HttpStatusErr 413 ''too large''), ?w1)"
    by code_simp
  have h2: "(413 :: int) = 400 \<or> (413 :: int) = 413" by simp
  have h3: "(1 :: nat) < length [''a'', ''b'']" by simp
  have h4: "fetchSplit upHalfFails 1 None (take (length [''a'', ''b''] div 2) [''a'', ''b'']) ?w1 =
       (Inr [''entry:a''], ?w2)"
    by code_simp
  have h5: "fetchSplit upHalfFails 1 None (drop (length [''a'', ''b''] div 2) [''a'', ''b'']) ?w2 =
       (Inl (Failed (HttpStatusErr 429 ''slow down'')), ?w3)"
    by code_simp
  have h6: "Inr [''entry:a''] = (Inl (Failed (HttpStatusErr 429 ''slow down'')) :: error fault + string list)
     \<or> ((Inr [''entry:a''] :: error fault + string list) = Inr [''entry:a'']
         \<and> Inl (Failed (HttpStatusErr 429 ''slow down'')) = (Inl (Failed (HttpStatusErr 429 ''slow down'')) :: error fault + string list))"
    by simp
  show ?thesis
    using fetchSplit_half_error [OF h1 h2 h3 h4 h5 h6] h1 h3 h4 h5 by simp
qed

section \<open>Blocking points and cancellation\<close>

lemma wait_cancelled:
  assumes "waitStep tb t = (tb1, MustWait d)" and "c < t + d"
  shows "wait (Suc n) (Some c) tb t = (Some (Some CtxErr), tb1, max c t)"
  using assms by (simp add: selectTimer_def)

lemma MinInterval_cancelled:
  assumes "0 < Interval m" and "0 < mLast m + Interval m - t" and "c < mLast m + Interval m"
  shows "MinInterval_Fetch p m (Some c) symbols t = (Inl CtxErr, m, max c t)"
  using assms by (simp add: MinInterval_Fetch_def selectTimer_def)

text \<open>
  Claim C9, amended. The wait of the token bucket and the wait of \<open>MinInterval\<close>
  observe the context: when it is done before the timer fires, they return its error at
  that moment (at once when it is done already), and \<open>MinInterval\<close> does not call the
  wrapped provider. The backoff of the batch engine does not: after a 429 or 5xx answer
  with retries left, the next attempt starts when the whole backoff has passed, whatever
  the context.
\<close>

theorem blocking_points_and_cancellation:
  "(waitStep tb t = (tb1, MustWait d) \<and> c < t + d \<longrightarrow>
      wait (Suc n) (Some c) tb t = (Some (Some CtxErr), tb1, max c t))
   \<and> (0 < Interval m \<and> 0 < mLast m + Interval m - t' \<and> c' < mLast m + Interval m \<longrightarrow>
      MinInterval_Fetch p m (Some c') symbols t' = (Inl CtxErr, m, max c' t'))
   \<and> (doReq up ctx names w = (Inl (HttpStatusErr code body), w1)
       \<and> (code = 429 \<or> (500 \<le> code \<and> code < 600)) \<and> int attempt < maxRetries \<longrightarrow>
      fetchSplitLoop up maxRetries ctx attempt names w =
        fetchSplitLoop up maxRetries ctx (attempt + 1) names
          (w1\<lparr>clock := timeSleep (backoff attempt) (clock w1),
              trace := trace w1 @ [Sleep (backoff attempt)]\<rparr>))"
  using wait_cancelled [of tb t tb1 d c n] MinInterval_cancelled [of m t' c' p symbols]
    fetchSplitLoop_retry [of up ctx names w code body w1 attempt maxRetries]
  by (simp add: sleepFor_def)

lemma backoff_0: "backoff 0 = 250000000"
  by (simp add: backoff_def)

text \<open>
  Claim C9, as stated, fails for the backoff of the batch engine. The upstream answers
  429; the context is done 10 ms after the start, during the first backoff of 250 ms.
  \<open>fetchSplit\<close> sleeps the 250 ms to the end and only the next request meets the
  cancelled context.
\<close>

theorem blocking_points_and_cancellation_counterexample:
  "fetchSplit upThrottled 3 (Some 10000000) [''a''] world0 =
     (Inl (Failed (OtherErr ''context canceled'')),
      \<lparr>clock = 250000000, ustate = (),
        trace = [Request [''a''], Sleep 250000000, Request [''a'']]\<rparr>)"
  by code_simp

text \<open>
  The amended claim at an empty bucket of rate 1 with the context done after 10 ms, at an
  interval of 100 with the last call at 50, entered at 55 with the context done at 60,
  and at the throttled upstream above.
\<close>

theorem blocking_points_and_cancellation_witness:
  "waitStep emptyBucket 0 = (emptyBucket, MustWait 1000000000) \<and> (10000000 :: int) < 0 + 1000000000
   \<and> wait (Suc 0) (Some 10000000) emptyBucket 0 = (Some (Some CtxErr), emptyBucket, 10000000)
   \<and> MinInterval_Fetch providerOk \<lparr>Interval = 100, mLast = 50\<rparr> (Some 60) [''a''] 55 =
       (Inl CtxErr, \<lparr>Interval = 100, mLast = 50\<rparr>, 60)
   \<and> doReq upThrottled (Some 10000000) [''a''] world0 =
       (Inl (HttpStatusErr 429 ''slow down''), \<lparr>clock = 0, ustate = (), trace = [Request [''a'']]\<rparr>)
   \<and> fetchSplitLoop upThrottled 3 (Some 10000000) 0 [''a''] world0 =
       fetchSplitLoop upThrottled 3 (Some 10000000) 1 [''a'']
         \<lparr>clock = 250000000, ustate = (), trace = [Request [''a''], Sleep 250000000]\<rparr>"
proof -
  have h1: "waitStep emptyBucket 0 = (emptyBucket, MustWait 1000000000)"
    by (simp add: waitStep_def refill_def secondsBetween_def emptyBucket_def waitDur_def
        toDuration_def Let_def)
  have h2: "doReq upThrottled (Some 10000000) [''a''] world0 =
       (Inl (HttpStatusErr 429 ''slow down''), \<lparr>clock = 0, ustate = (), trace = [Request [''a'']]\<rparr>)"
    by (simp add: doReq_def upThrottled_def world0_def ctxDone_def classify_def)
  show ?thesis
    using blocking_points_and_cancellation [where tb = emptyBucket and t = 0 and ?tb1.0 = emptyBucket
        and d = 1000000000 and c = 10000000 and n = 0
        and m = "\<lparr>Interval = 100, mLast = 50\<rparr>" and t' = 55 and c' = 60 and p = providerOk
        and symbols = "[''a'']" and up = upThrottled and ctx = "Some 10000000" and names = "[''a'']"
        and w = world0 and code = 429 and body = "''slow down''"
        and ?w1.0 = "\<lparr>clock = 0, ustate = (), trace = [Request [''a'']]\<rparr>"
        and attempt = 0 and maxRetries = 3]
      h1 h2
    by (simp add: backoff_0 timeSleep_def)
qed

section \<open>Properties of the payload cache\<close>

text \<open>
  Claim C7. After a refresh of a site has succeeded, the new payload is written to the
  site's entry only if, at the time of the commit, the entry is absent or expired; if the
  entry then holds a value that has not expired, written by another caller in the
  meantime, the cache is left as that caller left it.
\<close>

theorem refreshSite_commit:
  assumes "isExpired (cache st) site now" and "sfDo site = (Inr res, tc)"
  shows "cache (refreshSite now sfDo env st site) =
           (if isExpired (env site (cache st)) site tc
            then (env site (cache st))(site \<mapsto> res)
            else env site (cache st))"
  using assms
  by (auto simp: refreshSite_def commitSite_def isExpired_def Let_def split: option.splits)

text \<open>
  A refresh committed at time 12: another caller's payload valid until 40 stays, and
  without it the fetched payload is stored.
\<close>

theorem refreshSite_commit_witness:
  "isExpired (cache refreshStart) ''A'' 10 \<and> sfDoFresh ''A'' = (Inr \<lparr>scItems = 1, until = 50\<rparr>, 12)
   \<and> \<not> isExpired (envWrites ''A'' (cache refreshStart)) ''A'' 12
   \<and> cache (refreshSite 10 sfDoFresh envWrites refreshStart ''A'') ''A'' = Some \<lparr>scItems = 2, until = 40\<rparr>
   \<and> isExpired ((\<lambda>s c. c) ''A'' (cache refreshStart)) ''A'' 12
   \<and> cache (refreshSite 10 sfDoFresh (\<lambda>s c. c) refreshStart ''A'') ''A'' = Some \<lparr>scItems = 1, until = 50\<rparr>"
proof -
  have h1: "isExpired (cache refreshStart) ''A'' 10"
    by (simp add: isExpired_def refreshStart_def)
  have h2: "sfDoFresh ''A'' = (Inr \<lparr>scItems = 1, until = 50\<rparr>, 12)"
    by (simp add: sfDoFresh_def)
  show ?thesis
    using refreshSite_commit [where st = refreshStart and site = "''A''" and now = 10
        and sfDo = sfDoFresh and res = "\<lparr>scItems = 1, until = 50\<rparr>" and tc = 12
        and env = envWrites, OF h1 h2]
      refreshSite_commit [where st = refreshStart and site = "''A''" and now = 10
        and sfDo = sfDoFresh and res = "\<lparr>scItems = 1, until = 50\<rparr>" and tc = 12
        and env = "\<lambda>s c. c", OF h1 h2] h1 h2
    by (simp add: isExpired_def envWrites_def refreshStart_def)
qed

end
